theory Spec2Isabelle
  imports Main "HOL-Library.Word"
begin

section \<open>The stream processor of the WebRTC-to-SRT mixer\<close>

text \<open>
  This theory embeds \<^verbatim>\<open>backend/src/utils/streamProcessor.ts\<close> (class
  \<^verbatim>\<open>StreamProcessor\<close>) and the way \<^verbatim>\<open>backend/server.ts\<close> drives it.

  The class runs on one cooperative scheduler. Every method body and every listener
  body runs to completion (or up to its \<^verbatim>\<open>await\<close> on a write) before the next
  event of the loop is handled, so the model is a function \<open>step\<close> from one event and
  the state before it to the state after it, and a run is a fold over a list of events.
  What the operating system and the clock decide (whether \<^verbatim>\<open>spawn\<close> throws, what
  \<^verbatim>\<open>Date.now()\<close> reads, when a process exits, whether a write succeeds) is carried
  by the events.
\<close>

subsection \<open>Data\<close>

type_synonym pid = nat

text \<open>A \<^verbatim>\<open>Buffer\<close> is a sequence of bytes.\<close>

type_synonym buffer = "8 word list"

text \<open>
  The fields of the class (lines 5-12) come first. The fields after them are the
  environment the class acts on: the children it has spawned that still run (\<open>live\<close>),
  the children it has killed whose \<^verbatim>\<open>exit\<close> event has not been delivered yet
  (\<open>killed\<close>), the children whose \<^verbatim>\<open>stdin.writable\<close> is true (\<open>writable\<close>), the
  number of children spawned so far (\<open>nextPid\<close>, the next child's name), every chunk
  handed to \<^verbatim>\<open>stdin.write\<close> with the child it went to (\<open>stdinLog\<close>), the
  \<^verbatim>\<open>setImmediate\<close> callbacks not yet run (\<open>scheduled\<close>) and the drain loops suspended
  at their \<^verbatim>\<open>await\<close> (\<open>waiting\<close>: for each suspended loop the child whose input
  its write went to).
\<close>

record world =
  ffmpeg :: "pid option"
  writeQueue :: "buffer list"
  isWriting :: bool
  currentStreamId :: "string option"
  restartAttempts :: nat
  isShuttingDown :: bool
  currentDestination :: "string option"
  live :: "pid list"
  killed :: "pid list"
  writable :: "pid list"
  nextPid :: pid
  stdinLog :: "(pid \<times> buffer) list"
  scheduled :: nat
  waiting :: "pid list"

definition maxRestartAttempts :: nat where
  "maxRestartAttempts = 3"

text \<open>The state of \<^verbatim>\<open>new StreamProcessor()\<close> in a fresh connection.\<close>

definition init :: world where
  "init = \<lparr> ffmpeg = None, writeQueue = [], isWriting = False, currentStreamId = None,
            restartAttempts = 0, isShuttingDown = False, currentDestination = None,
            live = [], killed = [], writable = [], nextPid = 0, stdinLog = [],
            scheduled = 0, waiting = [] \<rparr>"

text \<open>
  What the environment answers during one call of \<^verbatim>\<open>start\<close>: the reading of
  \<^verbatim>\<open>Date.now()\<close>, whether \<^verbatim>\<open>spawn\<close> returns a child object (\<open>True\<close>) or throws,
  and whether the program behind a returned object runs. The runtime reports a program
  that cannot be executed (no such file, no permission) not by a throw but by the
  \<^verbatim>\<open>error\<close> event of the object it has returned: such a child never runs, its input is
  not writable, and it has no \<^verbatim>\<open>exit\<close> event.
\<close>

record env =
  now :: nat
  spawnOk :: bool
  childRuns :: bool

subsection \<open>\<^verbatim>\<open>Date.now().toString()\<close>\<close>

text \<open>The decimal rendering of a non-negative integer.\<close>

definition digit :: "nat \<Rightarrow> char" where
  "digit d = char_of (48 + d)"

fun toString :: "nat \<Rightarrow> string" where
  "toString n = (if n < 10 then [digit n] else toString (n div 10) @ [digit (n mod 10)])"

subsection \<open>The process supervisor\<close>

text \<open>
  \<^verbatim>\<open>child.kill('SIGKILL')\<close>: a running child dies and its \<^verbatim>\<open>exit\<close> event becomes
  pending; on a child that has already exited the call does nothing. The call itself is
  taken not to throw (in \<^verbatim>\<open>cleanupStream\<close> a throw would be caught and change nothing).
\<close>

definition kill :: "pid \<Rightarrow> world \<Rightarrow> world" where
  "kill p w =
     (if p \<in> set (live w)
      then w\<lparr>live := removeAll p (live w), killed := killed w @ [p]\<rparr>
      else w)"

text \<open>
  \<^verbatim>\<open>spawn('ffmpeg', args, ...)\<close> at line 106: \<open>None\<close> when it throws, otherwise the
  new child object and the environment that holds it. A child whose program cannot be
  executed gets a name and listeners like any other, but is neither running nor
  writable.
\<close>

definition spawn :: "env \<Rightarrow> world \<Rightarrow> (pid \<times> world) option" where
  "spawn e w =
     (if spawnOk e
      then Some (nextPid w,
                 w\<lparr>live := (if childRuns e then live w @ [nextPid w] else live w),
                   writable := (if childRuns e then writable w @ [nextPid w] else writable w),
                   nextPid := nextPid w + 1\<rparr>)
      else None)"

text \<open>
  \<^verbatim>\<open>start\<close>, lines 100-165. The destination is a \<^verbatim>\<open>string\<close> for the type checker, but
  the restart paths pass \<^verbatim>\<open>this.currentDestination!\<close>, which is \<^verbatim>\<open>null\<close> after
  \<^verbatim>\<open>stop()\<close>; hence \<open>string option\<close>. A throwing \<^verbatim>\<open>spawn\<close> leaves through the
  \<^verbatim>\<open>catch\<close> before any field is assigned. The request for a scheduling priority
  (lines 116-130) touches no field and is left out; the listeners attached at lines
  132-158 are \<open>onExit\<close>, \<open>handleError\<close> and \<open>onStdinError\<close> below.
\<close>

definition start :: "env \<Rightarrow> string option \<Rightarrow> world \<Rightarrow> string option \<times> world" where
  "start e destination w =
     (if isShuttingDown w then (None, w)
      else case spawn e w of
        None \<Rightarrow> (None, w)
      | Some (p, w1) \<Rightarrow>
          (Some (toString (now e)),
           w1\<lparr>ffmpeg := Some p,
              currentStreamId := Some (toString (now e)),
              currentDestination := destination,
              writeQueue := [],
              isWriting := False,
              restartAttempts := 0\<rparr>))"

text \<open>\<^verbatim>\<open>switchStream\<close>, lines 68-83.\<close>

definition switchStream :: "env \<Rightarrow> string option \<Rightarrow> world \<Rightarrow> string option \<times> world" where
  "switchStream e destination w =
     (let w1 = (case ffmpeg w of
                  Some p \<Rightarrow> (kill p w)\<lparr>ffmpeg := None\<rparr>
                | None \<Rightarrow> w)
      in start e destination (w1\<lparr>writeQueue := [], isWriting := False\<rparr>))"

text \<open>\<^verbatim>\<open>cleanupStream\<close>, lines 85-98: nothing at all happens without a handle.\<close>

definition cleanupStream :: "world \<Rightarrow> world" where
  "cleanupStream w =
     (case ffmpeg w of
        None \<Rightarrow> w
      | Some p \<Rightarrow> (kill p w)\<lparr>ffmpeg := None, currentStreamId := None,
                              writeQueue := [], isWriting := False\<rparr>)"

text \<open>
  JavaScript truthiness of \<^verbatim>\<open>this.currentDestination\<close> (line 221): \<^verbatim>\<open>null\<close> and the
  empty string are false.
\<close>

definition truthy :: "string option \<Rightarrow> bool" where
  "truthy d = (case d of None \<Rightarrow> False | Some s \<Rightarrow> s \<noteq> [])"

text \<open>
  \<^verbatim>\<open>handleError\<close>, lines 217-229. \<^verbatim>\<open>cleanupStream\<close> has no \<^verbatim>\<open>await\<close> in its body, so
  its promise is already settled and the \<^verbatim>\<open>then\<close> callback runs before the next event.
\<close>

definition handleError :: "env \<Rightarrow> world \<Rightarrow> world" where
  "handleError e w =
     (if \<not> isShuttingDown w \<and> restartAttempts w < maxRestartAttempts
      then let w1 = w\<lparr>restartAttempts := restartAttempts w + 1\<rparr>
           in if ffmpeg w1 \<noteq> None \<and> truthy (currentDestination w1)
              then let w2 = cleanupStream w1
                   in snd (start e (currentDestination w2) w2)
              else w1
      else cleanupStream w)"

text \<open>
  The \<^verbatim>\<open>exit\<close> listener, lines 151-158. The code is \<^verbatim>\<open>null\<close> (\<open>None\<close>) when a signal
  ended the child, and \<^verbatim>\<open>null !== 0\<close> holds.
\<close>

definition onExit :: "int option \<Rightarrow> env \<Rightarrow> world \<Rightarrow> world" where
  "onExit code e w =
     (if \<not> isShuttingDown w \<and> code \<noteq> Some 0 \<and> restartAttempts w < maxRestartAttempts
      then let w1 = w\<lparr>restartAttempts := restartAttempts w + 1\<rparr>
           in snd (start e (currentDestination w1) w1)
      else w)"

text \<open>
  The \<^verbatim>\<open>error\<close> listener of the child's input stream, lines 144-149; \<^verbatim>\<open>error.code\<close>
  may be absent.
\<close>

definition onStdinError :: "string option \<Rightarrow> env \<Rightarrow> world \<Rightarrow> world" where
  "onStdinError code e w = (if code \<noteq> Some ''EPIPE'' then handleError e w else w)"

text \<open>\<^verbatim>\<open>stop\<close>, lines 231-236.\<close>

definition stop :: "world \<Rightarrow> world" where
  "stop w =
     (let w1 = cleanupStream (w\<lparr>isShuttingDown := True\<rparr>)
      in w1\<lparr>isShuttingDown := False, currentDestination := None\<rparr>)"

subsection \<open>The write queue\<close>

text \<open>\<^verbatim>\<open>this.ffmpeg?.stdin?.writable\<close>.\<close>

definition stdinWritable :: "world \<Rightarrow> bool" where
  "stdinWritable w = (case ffmpeg w of None \<Rightarrow> False | Some p \<Rightarrow> p \<in> set (writable w))"

text \<open>\<^verbatim>\<open>processChunk\<close>, lines 238-249.\<close>

definition processChunk :: "buffer \<Rightarrow> world \<Rightarrow> bool \<times> world" where
  "processChunk chunk w =
     (if \<not> stdinWritable w \<or> isShuttingDown w then (False, w)
      else (True, w\<lparr>writeQueue := writeQueue w @ [chunk], scheduled := scheduled w + 1\<rparr>))"

text \<open>
  One turn of the \<^verbatim>\<open>while\<close> loop of \<^verbatim>\<open>processQueue\<close> (lines 197-214), up to the point
  where it suspends or leaves the loop. With a chunk at the head of the queue it shifts
  the chunk and calls \<^verbatim>\<open>writeChunk\<close> (lines 167-191): when the guard of line 168 fails
  the promise is already \<^verbatim>\<open>false\<close>, the queue is emptied and the loop is left; otherwise
  the chunk is handed to \<^verbatim>\<open>stdin.write\<close> and the loop waits for the promise.
\<close>

definition drainLoop :: "world \<Rightarrow> world" where
  "drainLoop w =
     (if writeQueue w \<noteq> [] \<and> \<not> isShuttingDown w
      then case writeQueue w of
             [] \<Rightarrow> w
           | chunk # rest \<Rightarrow>
               (let w1 = w\<lparr>writeQueue := rest\<rparr>
                in if \<not> stdinWritable w1 \<or> isShuttingDown w1
                   then w1\<lparr>writeQueue := [], isWriting := False\<rparr>
                   else case ffmpeg w1 of
                          None \<Rightarrow> w1
                        | Some p \<Rightarrow> w1\<lparr>stdinLog := stdinLog w1 @ [(p, chunk)],
                                       waiting := waiting w1 @ [p]\<rparr>)
      else w\<lparr>isWriting := False\<rparr>)"

text \<open>\<^verbatim>\<open>processQueue\<close> from its entry, lines 193-197.\<close>

definition processQueue :: "world \<Rightarrow> world" where
  "processQueue w =
     (if isWriting w \<or> writeQueue w = [] \<or> isShuttingDown w then w
      else drainLoop (w\<lparr>isWriting := True\<rparr>))"

text \<open>
  The promise of \<^verbatim>\<open>writeChunk\<close> for a write to child \<open>p\<close> settles with \<open>ok\<close> and
  the loop suspended on it goes on: \<^verbatim>\<open>true\<close> from the write callback or from
  \<^verbatim>\<open>drain\<close> after backpressure, \<^verbatim>\<open>false\<close> from a write error (lines 203-207). A
  stream whose write fails is errored by the time the callback reports it, so the
  input of \<open>p\<close> is not writable from then on.
\<close>

definition writeDone :: "pid \<Rightarrow> bool \<Rightarrow> world \<Rightarrow> world" where
  "writeDone p ok w =
     (if p \<notin> set (waiting w) then w
      else let w1 = w\<lparr>waiting := remove1 p (waiting w)\<rparr>
           in if ok then drainLoop w1
              else w1\<lparr>writable := removeAll p (writable w1),
                      writeQueue := [], isWriting := False\<rparr>)"

subsection \<open>Events\<close>

text \<open>
  \<open>Start\<close>, \<open>Switch\<close> and \<open>Stop\<close> are the control frames of \<^verbatim>\<open>server.ts\<close> (lines
  36-58); \<open>Stop\<close> is also the close and the error of the connection (lines 81-89).
  \<open>Chunk\<close> is a binary frame (line 70). \<open>RunDrain\<close> is a callback of
  \<^verbatim>\<open>setImmediate\<close> (line 243), \<open>WriteDone\<close> a settled write to the named child. \<open>ProcExit\<close> is the exit
  of a running child by itself, \<open>KillExit\<close> the exit event of a killed child,
  \<open>ProcError\<close> and \<open>StdinError\<close> the \<^verbatim>\<open>error\<close> events of a child and of its input
  stream, \<open>StdinClosed\<close> the end of an input stream's writability. An event that cannot
  happen in a state (an exit of a child that does not run, a callback nobody scheduled)
  leaves the state as it is.
\<close>

datatype event =
    Start "string option" env
  | Switch "string option" env
  | Stop
  | Chunk buffer
  | RunDrain
  | WriteDone pid bool
  | ProcExit pid "int option" env
  | KillExit pid env
  | ProcError pid env
  | StdinError pid "string option" env
  | StdinClosed pid

fun step :: "event \<Rightarrow> world \<Rightarrow> world" where
  "step (Start d e) w = snd (start e d w)"
| "step (Switch d e) w = snd (switchStream e d w)"
| "step Stop w = stop w"
| "step (Chunk c) w = snd (processChunk c w)"
| "step RunDrain w =
     (if scheduled w = 0 then w else processQueue (w\<lparr>scheduled := scheduled w - 1\<rparr>))"
| "step (WriteDone p ok) w = writeDone p ok w"
| "step (ProcExit p code e) w =
     (if p \<in> set (live w)
      then onExit code e (w\<lparr>live := removeAll p (live w),
                            writable := removeAll p (writable w)\<rparr>)
      else w)"
| "step (KillExit p e) w =
     (if p \<in> set (killed w)
      then onExit None e (w\<lparr>killed := removeAll p (killed w),
                            writable := removeAll p (writable w)\<rparr>)
      else w)"
| "step (ProcError p e) w = (if p < nextPid w then handleError e w else w)"
| "step (StdinError p code e) w = (if p < nextPid w then onStdinError code e w else w)"
| "step (StdinClosed p) w = w\<lparr>writable := removeAll p (writable w)\<rparr>"

definition run :: "event list \<Rightarrow> world \<Rightarrow> world" where
  "run evs w = foldl (\<lambda>s ev. step ev s) w evs"

subsection \<open>Notions used by the properties\<close>

text \<open>
  An environment whose \<^verbatim>\<open>spawn\<close> returns a child that runs, one whose \<^verbatim>\<open>spawn\<close>
  throws, and one whose \<^verbatim>\<open>spawn\<close> returns a child object for a program that cannot
  be executed.
\<close>

definition envOk :: "nat \<Rightarrow> env" where
  "envOk t = \<lparr>now = t, spawnOk = True, childRuns = True\<rparr>"

definition envThrow :: "nat \<Rightarrow> env" where
  "envThrow t = \<lparr>now = t, spawnOk = False, childRuns = False\<rparr>"

definition envNoExec :: "nat \<Rightarrow> env" where
  "envNoExec t = \<lparr>now = t, spawnOk = True, childRuns = False\<rparr>"

text \<open>
  The class has no state field. \<open>idle\<close> is the condition the design document calls
  Idle: no child is owned and the processor is not shutting down.
\<close>

definition idle :: "world \<Rightarrow> bool" where
  "idle w = (ffmpeg w = None \<and> \<not> isShuttingDown w)"

text \<open>
  A child that exits with status 1 as soon as it runs, \<open>n\<close> times in a row: the
  \<open>k\<close>-th child spawned is the one that exits at the \<open>k\<close>-th turn.
\<close>

definition crashLoop :: "nat \<Rightarrow> event list" where
  "crashLoop n = map (\<lambda>k. ProcExit k (Some 1) (envOk 0)) [0..<n]"

text \<open>
  A program that cannot be executed, \<open>n\<close> times in a row: the \<^verbatim>\<open>error\<close> event of
  the \<open>k\<close>-th child object arrives at the \<open>k\<close>-th turn, and the next \<^verbatim>\<open>spawn\<close>
  fares no better.
\<close>

definition errorLoop :: "nat \<Rightarrow> event list" where
  "errorLoop n = map (\<lambda>k. ProcError k (envNoExec 0)) [0..<n]"

text \<open>
  What holds between any two events of a run that begins in \<open>init\<close>: the shutdown flag
  is down, a queue with chunks has a handle, a raised \<open>isWriting\<close> has a suspended
  loop behind it, and chunks in the queue have a scheduled callback or a suspended loop
  that will take them.
\<close>

definition consistent :: "world \<Rightarrow> bool" where
  "consistent w =
     (\<not> isShuttingDown w \<and>
      (ffmpeg w = None \<longrightarrow> writeQueue w = []) \<and>
      (isWriting w \<longrightarrow> waiting w \<noteq> []) \<and>
      (writeQueue w \<noteq> [] \<longrightarrow> 0 < scheduled w \<or> waiting w \<noteq> []))"

text \<open>
  The events of an uninterrupted active period without write errors: binary frames,
  drain callbacks and writes that settle with \<^verbatim>\<open>true\<close>.
\<close>

fun drainEvent :: "event \<Rightarrow> bool" where
  "drainEvent (Chunk c) = True"
| "drainEvent RunDrain = True"
| "drainEvent (WriteDone p ok) = ok"
| "drainEvent _ = False"

fun chunkOf :: "event \<Rightarrow> buffer list" where
  "chunkOf (Chunk c) = [c]"
| "chunkOf _ = []"

definition chunksOf :: "event list \<Rightarrow> buffer list" where
  "chunksOf evs = concat (map chunkOf evs)"

text \<open>
  The events still owed to a state: every scheduled callback runs, and then the
  pending writes settle with \<^verbatim>\<open>true\<close>, the oldest first, until the queue is empty and
  no loop is suspended. \<open>settleWrites n\<close> lists at most \<open>n\<close> such settlements.
\<close>

fun settleWrites :: "nat \<Rightarrow> world \<Rightarrow> event list" where
  "settleWrites 0 w = []"
| "settleWrites (Suc n) w =
     (case waiting w of
        [] \<Rightarrow> []
      | q # qs \<Rightarrow> WriteDone q True # settleWrites n (step (WriteDone q True) w))"

definition settle :: "world \<Rightarrow> event list" where
  "settle w =
     (let w1 = run (replicate (scheduled w) RunDrain) w
      in replicate (scheduled w) RunDrain @
         settleWrites (length (waiting w1) + length (writeQueue w1)) w1)"

text \<open>The control frames that ask for a child.\<close>

fun explicitStart :: "event \<Rightarrow> bool" where
  "explicitStart (Start d e) = True"
| "explicitStart (Switch d e) = True"
| "explicitStart _ = False"

section \<open>Basic facts\<close>

declare toString.simps [simp del]

lemma run_Nil: "run [] w = w"
  by (simp add: run_def)

lemma run_Cons: "run (ev # evs) w = run evs (step ev w)"
  by (simp add: run_def)

lemma run_append: "run (xs @ ys) w = run ys (run xs w)"
  by (simp add: run_def)

lemma run_snoc: "run (xs @ [ev]) w = step ev (run xs w)"
  by (simp add: run_def)

subsection \<open>The decimal rendering is injective\<close>

lemma toString_nonempty: "toString n \<noteq> []"
  by (subst toString.simps) simp

lemma digit_inj: "a < 10 \<Longrightarrow> b < 10 \<Longrightarrow> digit a = digit b \<Longrightarrow> a = b"
proof -
  assume a: "a < 10" and b: "b < 10" and eq: "digit a = digit b"
  from eq have "(of_char (char_of (48 + a) :: char) :: nat) = of_char (char_of (48 + b) :: char)"
    by (simp add: digit_def)
  with a b show "a = b" by simp
qed

lemma toString_small: "n < 10 \<Longrightarrow> toString n = [digit n]"
  by (subst toString.simps) simp

lemma toString_large: "\<not> n < 10 \<Longrightarrow> toString n = toString (n div 10) @ [digit (n mod 10)]"
  by (subst toString.simps) simp

lemma toString_inj: "toString n = toString m \<Longrightarrow> n = m"
proof (induction n arbitrary: m rule: toString.induct)
  case (1 n)
  note eq = \<open>toString n = toString m\<close>
  show ?case
  proof (cases "n < 10")
    case True
    note n = toString_small [OF True]
    show ?thesis
    proof (cases "m < 10")
      case True
      with n eq \<open>n < 10\<close> show ?thesis by (auto simp: toString_small dest: digit_inj)
    next
      case False
      with n eq have "toString (m div 10) = []" by (simp add: toString_large)
      then show ?thesis by (simp add: toString_nonempty)
    qed
  next
    case False
    note n = toString_large [OF False]
    show ?thesis
    proof (cases "m < 10")
      case True
      with n eq have "toString (n div 10) = []" by (simp add: toString_small)
      then show ?thesis by (simp add: toString_nonempty)
    next
      case m: False
      with n eq have a: "toString (n div 10) = toString (m div 10)"
        and b: "digit (n mod 10) = digit (m mod 10)" by (simp_all add: toString_large)
      from "1.IH" [OF False a] have "n div 10 = m div 10" .
      moreover from b have "n mod 10 = m mod 10" by (auto dest!: digit_inj [rotated 2])
      ultimately show ?thesis by (metis div_mult_mod_eq)
    qed
  qed
qed

subsection \<open>What \<open>start\<close> and \<open>stop\<close> return and leave behind\<close>

lemma start_ok:
  "\<not> isShuttingDown w \<Longrightarrow> spawnOk e \<Longrightarrow> childRuns e \<Longrightarrow>
   start e d w = (Some (toString (now e)),
     w\<lparr>live := live w @ [nextPid w], writable := writable w @ [nextPid w],
       nextPid := nextPid w + 1, ffmpeg := Some (nextPid w),
       currentStreamId := Some (toString (now e)), currentDestination := d,
       writeQueue := [], isWriting := False, restartAttempts := 0\<rparr>)"
  by (simp add: start_def spawn_def)

lemma start_fst:
  "fst (start e d w) =
     (if isShuttingDown w \<or> \<not> spawnOk e then None else Some (toString (now e)))"
  by (simp add: start_def spawn_def)

lemma switchStream_fst:
  "fst (switchStream e d w) =
     (if isShuttingDown w \<or> \<not> spawnOk e then None else Some (toString (now e)))"
  by (simp add: switchStream_def start_fst kill_def Let_def split: option.splits)

lemma stop_fields:
  "ffmpeg (stop w) = None" "\<not> isShuttingDown (stop w)" "currentDestination (stop w) = None"
  "restartAttempts (stop w) = restartAttempts w"
  by (simp_all add: stop_def cleanupStream_def kill_def Let_def split: option.splits)

lemma stop_idem: "stop (stop w) = stop w"
  by (simp add: stop_def cleanupStream_def kill_def Let_def split: option.splits)

lemma stop_queue: "(ffmpeg w = None \<longrightarrow> writeQueue w = []) \<Longrightarrow> writeQueue (stop w) = []"
  by (auto simp add: stop_def cleanupStream_def kill_def Let_def split: option.splits)

lemma stop_kills: "ffmpeg w = Some p \<Longrightarrow> p \<notin> set (live (stop w))"
  by (simp add: stop_def cleanupStream_def kill_def Let_def)

subsection \<open>Every reachable state is consistent\<close>

lemma consistent_init: "consistent init"
  by (simp add: consistent_def init_def)

lemma consistent_env_update [simp]:
  "consistent (w\<lparr>live := l\<rparr>) = consistent w"
  "consistent (w\<lparr>killed := k\<rparr>) = consistent w"
  "consistent (w\<lparr>writable := wr\<rparr>) = consistent w"
  by (simp_all add: consistent_def)

lemma consistent_restartAttempts: "consistent w \<Longrightarrow> consistent (w\<lparr>restartAttempts := n\<rparr>)"
  by (simp add: consistent_def)

lemma consistent_start: "consistent w \<Longrightarrow> consistent (snd (start e d w))"
  by (simp add: consistent_def start_def spawn_def)

lemma consistent_cleanupStream: "consistent w \<Longrightarrow> consistent (cleanupStream w)"
  by (simp add: consistent_def cleanupStream_def kill_def split: option.splits)

lemma consistent_switchStream: "consistent w \<Longrightarrow> consistent (snd (switchStream e d w))"
  by (simp add: consistent_def switchStream_def start_def spawn_def kill_def Let_def
      split: option.splits)

lemma consistent_stop: "consistent w \<Longrightarrow> consistent (stop w)"
  by (simp add: consistent_def stop_def cleanupStream_def kill_def Let_def split: option.splits)

lemma consistent_handleError: "consistent w \<Longrightarrow> consistent (handleError e w)"
  by (simp add: handleError_def Let_def consistent_start consistent_cleanupStream
      consistent_restartAttempts)

lemma consistent_onExit: "consistent w \<Longrightarrow> consistent (onExit code e w)"
  by (simp add: onExit_def Let_def consistent_start consistent_restartAttempts)

lemma consistent_processChunk: "consistent w \<Longrightarrow> consistent (snd (processChunk c w))"
  by (auto simp: consistent_def processChunk_def stdinWritable_def split: option.splits)

lemma consistent_drainLoop:
  "\<not> isShuttingDown w \<Longrightarrow> (ffmpeg w = None \<longrightarrow> writeQueue w = []) \<Longrightarrow>
   consistent (drainLoop w)"
  by (auto simp: consistent_def drainLoop_def stdinWritable_def Let_def
      split: option.splits list.splits)

lemma consistent_writeDone: "consistent w \<Longrightarrow> consistent (writeDone p ok w)"
  by (auto simp: writeDone_def Let_def consistent_def
      intro!: consistent_drainLoop [unfolded consistent_def])

lemma consistent_RunDrain:
  assumes "consistent w" "0 < scheduled w"
  shows "consistent (processQueue (w\<lparr>scheduled := scheduled w - Suc 0\<rparr>))"
proof (cases "isWriting w \<or> writeQueue w = []")
  case True
  with assms show ?thesis by (auto simp: processQueue_def consistent_def)
next
  case False
  with assms have "processQueue (w\<lparr>scheduled := scheduled w - Suc 0\<rparr>) =
      drainLoop (w\<lparr>scheduled := scheduled w - Suc 0, isWriting := True\<rparr>)"
    by (simp add: processQueue_def consistent_def)
  moreover from assms
  have "consistent (drainLoop (w\<lparr>scheduled := scheduled w - Suc 0, isWriting := True\<rparr>))"
    by (intro consistent_drainLoop) (simp_all add: consistent_def)
  ultimately show ?thesis by simp
qed

lemma consistent_step: "consistent w \<Longrightarrow> consistent (step ev w)"
  by (cases ev)
     (simp_all add: consistent_start consistent_switchStream consistent_stop
        consistent_processChunk consistent_writeDone consistent_onExit consistent_handleError
        consistent_RunDrain onStdinError_def)

lemma consistent_run: "consistent w \<Longrightarrow> consistent (run evs w)"
  by (induction evs arbitrary: w) (simp_all add: run_Nil run_Cons consistent_step)

lemma consistent_reachable: "consistent (run evs init)"
  by (simp add: consistent_run consistent_init)

section \<open>The restart policy\<close>

lemma crashLoop_Suc: "crashLoop (Suc n) = crashLoop n @ [ProcExit n (Some 1) (envOk 0)]"
  by (simp add: crashLoop_def)

lemma crash_state:
  "run (Start d (envOk t) # crashLoop n) init =
     init\<lparr>ffmpeg := Some n, currentStreamId := Some (toString (if n = 0 then t else 0)),
          currentDestination := d, live := [n], writable := [n], nextPid := n + 1\<rparr>"
proof (induction n)
  case 0
  show ?case by (simp add: crashLoop_def run_Cons run_Nil start_ok init_def envOk_def)
next
  case (Suc n)
  show ?case
    unfolding crashLoop_Suc append_Cons [symmetric] run_snoc Suc.IH
    by (simp add: onExit_def maxRestartAttempts_def start_ok init_def envOk_def)
qed

text \<open>
  C1 (the code departs from it). A child that exits with status 1 every time it is
  spawned is restarted every time: after one explicit start and \<open>n\<close> such exits, for
  any \<open>n\<close>, child number \<open>n\<close> runs, so \<open>n\<close> automatic restarts have happened, and the
  counter reads 0 again because \<open>start\<close> resets it. The bound of three is never
  reached on this path.
\<close>

theorem restart_never_exhausted:
  "nextPid (run (Start d (envOk t) # crashLoop n) init) = n + 1 \<and>
   live (run (Start d (envOk t) # crashLoop n) init) = [n] \<and>
   ffmpeg (run (Start d (envOk t) # crashLoop n) init) = Some n \<and>
   restartAttempts (run (Start d (envOk t) # crashLoop n) init) = 0"
  unfolding crash_state by (simp add: init_def)

text \<open>
  C2 (the code departs from it). \<open>start\<close> does not terminate the child it owns: two
  start frames in a row leave two children running, and the handle names the second.
\<close>

theorem two_starts_two_live:
  "live (run [Start (Some ''srt://host:9000'') (envOk 1000),
              Start (Some ''srt://host:9001'') (envOk 2000)] init) = [0, 1] \<and>
   ffmpeg (run [Start (Some ''srt://host:9000'') (envOk 1000),
                Start (Some ''srt://host:9001'') (envOk 2000)] init) = Some 1"
  by (simp add: run_def init_def start_def spawn_def envOk_def)

text \<open>
  C3 (the code departs from it). \<open>stop\<close> lowers the shutdown flag before the exit
  event of the child it killed is delivered. The exit listener then sees the flag
  down, a \<^verbatim>\<open>null\<close> exit code and a counter below the bound, and calls \<open>start\<close> with
  the cleared destination: a new child runs although nobody asked for one. When that
  \<^verbatim>\<open>spawn\<close> throws, the attempt still shows in the counter.
\<close>

theorem restart_after_stop:
  "live (run [Start (Some ''srt://host:9000'') (envOk 1000), Stop,
              KillExit 0 (envOk 2000)] init) = [1] \<and>
   ffmpeg (run [Start (Some ''srt://host:9000'') (envOk 1000), Stop,
                KillExit 0 (envOk 2000)] init) = Some 1 \<and>
   currentDestination (run [Start (Some ''srt://host:9000'') (envOk 1000), Stop,
                KillExit 0 (envOk 2000)] init) = None \<and>
   restartAttempts (run [Start (Some ''srt://host:9000'') (envOk 1000), Stop,
                KillExit 0 (envThrow 2000)] init) = 1"
  by (simp add: run_def init_def start_def spawn_def envOk_def envThrow_def stop_def
      cleanupStream_def kill_def onExit_def maxRestartAttempts_def)

section \<open>Stopping\<close>

text \<open>
  C4, as stated, fails: \<open>stop\<close> does not touch \<open>restartAttempts\<close>. Here the child
  exits with status 1, the restart's \<^verbatim>\<open>spawn\<close> throws, and the counter still reads 1
  after \<open>stop\<close>.
\<close>

theorem stop_keeps_restartAttempts:
  "restartAttempts (stop (run [Start (Some ''srt://host:9000'') (envOk 1000),
       ProcExit 0 (Some 1) (envThrow 2000)] init)) \<noteq> 0"
  by (simp add: run_def init_def start_def spawn_def onExit_def maxRestartAttempts_def
      stop_def cleanupStream_def kill_def envOk_def envThrow_def)

text \<open>
  C4, amended. In every reachable state \<open>stop\<close> leaves no handle, has killed the child
  that was owned, leaves the queue empty and the destination cleared, leaves
  \<open>restartAttempts\<close> as it was, and ends idle; a second \<open>stop\<close> changes nothing; and
  a later \<open>start\<close> whose \<^verbatim>\<open>spawn\<close> returns is accepted.
\<close>

theorem stop_effect:
  "ffmpeg (stop (run evs init)) = None \<and>
   (\<forall>p. ffmpeg (run evs init) = Some p \<longrightarrow> p \<notin> set (live (stop (run evs init)))) \<and>
   writeQueue (stop (run evs init)) = [] \<and>
   currentDestination (stop (run evs init)) = None \<and>
   restartAttempts (stop (run evs init)) = restartAttempts (run evs init) \<and>
   idle (stop (run evs init)) \<and>
   stop (stop (run evs init)) = stop (run evs init) \<and>
   (spawnOk e \<longrightarrow> fst (start e d (stop (run evs init))) = Some (toString (now e)))"
proof -
  have "ffmpeg (run evs init) = None \<longrightarrow> writeQueue (run evs init) = []"
    using consistent_reachable [of evs] by (simp add: consistent_def)
  then have "writeQueue (stop (run evs init)) = []" by (rule stop_queue)
  then show ?thesis
    by (simp add: stop_fields stop_idem stop_kills idle_def start_def spawn_def)
qed

text \<open>
  C4, amended, at a concrete run: a child is owned and one chunk is queued when
  \<open>stop\<close> is called.
\<close>

theorem stop_effect_witness:
  "ffmpeg (run [Start (Some ''srt://host:9000'') (envOk 1000), Chunk [1, 2]] init) = Some 0 \<and>
   0 \<notin> set (live (stop (run [Start (Some ''srt://host:9000'') (envOk 1000), Chunk [1, 2]] init))) \<and>
   writeQueue (run [Start (Some ''srt://host:9000'') (envOk 1000), Chunk [1, 2]] init) = [[1, 2]] \<and>
   writeQueue (stop (run [Start (Some ''srt://host:9000'') (envOk 1000), Chunk [1, 2]] init)) = [] \<and>
   spawnOk (envOk 3000) \<and>
   fst (start (envOk 3000) (Some ''srt://host:9001'')
     (stop (run [Start (Some ''srt://host:9000'') (envOk 1000), Chunk [1, 2]] init)))
     = Some (toString 3000)"
  using stop_effect [of "[Start (Some ''srt://host:9000'') (envOk 1000), Chunk [1, 2]]"
      "envOk 3000" "Some ''srt://host:9001''"]
  by (simp add: run_def init_def start_def spawn_def processChunk_def stdinWritable_def
      envOk_def)

section \<open>Stream identifiers\<close>

lemma toString_1000: "toString 1000 = ''1000''"
  by code_simp

lemma toString_1001: "toString 1001 = ''1001''"
  by code_simp

text \<open>
  C6, as stated, fails: the identifier is the clock's reading in milliseconds, so a
  start and a switch within the same millisecond reply with the same identifier.
\<close>

theorem same_millisecond_same_streamId:
  "fst (start (envOk 1000) (Some ''srt://host:9000'') init) = Some ''1000'' \<and>
   fst (switchStream (envOk 1000) (Some ''srt://host:9001'')
         (snd (start (envOk 1000) (Some ''srt://host:9000'') init))) = Some ''1000''"
  by (simp add: start_fst switchStream_fst start_def spawn_def init_def envOk_def
      toString_1000)

text \<open>
  C6, amended. A successful start returns the decimal rendering of the clock reading
  of its call, a successful switch that of its own call, and the two identifiers differ
  exactly when the two readings differ.
\<close>

theorem streamId_is_clock_reading:
  "fst (start e1 d1 w) = Some X \<Longrightarrow> fst (switchStream e2 d2 w') = Some Y \<Longrightarrow>
   X = toString (now e1) \<and> Y = toString (now e2) \<and> (Y \<noteq> X) = (now e2 \<noteq> now e1)"
  by (auto simp: start_fst switchStream_fst split: if_splits dest: toString_inj)

text \<open>C6, amended, at a start at reading 1000 and a switch at reading 1001.\<close>

theorem streamId_is_clock_reading_witness:
  "fst (start (envOk 1000) (Some ''srt://host:9000'') init) = Some ''1000'' \<and>
   fst (switchStream (envOk 1001) (Some ''srt://host:9001'')
         (snd (start (envOk 1000) (Some ''srt://host:9000'') init))) = Some ''1001'' \<and>
   ''1001'' \<noteq> ''1000''"
proof -
  have a: "fst (start (envOk 1000) (Some ''srt://host:9000'') init) = Some ''1000''"
    by (simp add: start_fst init_def envOk_def toString_1000)
  have b: "fst (switchStream (envOk 1001) (Some ''srt://host:9001'')
         (snd (start (envOk 1000) (Some ''srt://host:9000'') init))) = Some ''1001''"
    by (simp add: switchStream_fst start_def spawn_def init_def envOk_def toString_1001)
  have "(''1001'' \<noteq> ''1000'') = (now (envOk 1001) \<noteq> now (envOk 1000))"
    using streamId_is_clock_reading [OF a b] by blast
  with a b show ?thesis by (simp add: envOk_def)
qed

section \<open>Errors of the input stream\<close>

text \<open>
  C10. An error of the child's input stream whose code is \<^verbatim>\<open>EPIPE\<close> changes nothing:
  no counter moves, no child is killed or spawned. An error with any other code, or
  with none, is handled by \<open>handleError\<close>.
\<close>

theorem stdin_EPIPE_ignored:
  "onStdinError (Some ''EPIPE'') e w = w \<and>
   step (StdinError p (Some ''EPIPE'') e) w = w \<and>
   (code \<noteq> Some ''EPIPE'' \<longrightarrow> onStdinError code e w = handleError e w)"
  by (simp add: onStdinError_def)

text \<open>
  C10 at a concrete error: \<^verbatim>\<open>ECONNRESET\<close> on the input of a running child makes
  \<open>handleError\<close> kill the child and start the next one.
\<close>

theorem stdin_EPIPE_ignored_witness:
  "Some ''ECONNRESET'' \<noteq> Some ''EPIPE'' \<and>
   onStdinError (Some ''ECONNRESET'') (envOk 2000)
       (snd (start (envOk 1000) (Some ''srt://host:9000'') init))
     = handleError (envOk 2000) (snd (start (envOk 1000) (Some ''srt://host:9000'') init)) \<and>
   live (onStdinError (Some ''ECONNRESET'') (envOk 2000)
       (snd (start (envOk 1000) (Some ''srt://host:9000'') init))) = [1]"
  using stdin_EPIPE_ignored [of "envOk 2000"
      "snd (start (envOk 1000) (Some ''srt://host:9000'') init)" 0 "Some ''ECONNRESET''"]
  by (simp add: handleError_def start_def spawn_def init_def envOk_def cleanupStream_def
      kill_def truthy_def maxRestartAttempts_def)

section \<open>A failing spawn\<close>

lemma errorLoop_Suc: "errorLoop (Suc n) = errorLoop n @ [ProcError n (envNoExec 0)]"
  by (simp add: errorLoop_def)

lemma error_state:
  "run (Start (Some (c # cs)) (envNoExec t) # errorLoop n) init =
     init\<lparr>ffmpeg := Some n, currentStreamId := Some (toString (if n = 0 then t else 0)),
          currentDestination := Some (c # cs), nextPid := n + 1\<rparr>"
proof (induction n)
  case 0
  show ?case
    by (simp add: errorLoop_def run_Cons run_Nil start_def spawn_def init_def envNoExec_def)
next
  case (Suc n)
  show ?case
    unfolding errorLoop_Suc append_Cons [symmetric] run_snoc Suc.IH
    by (simp add: handleError_def maxRestartAttempts_def truthy_def cleanupStream_def
        kill_def start_def spawn_def init_def envNoExec_def)
qed

text \<open>
  C5 (the code departs from it). When the program cannot be executed, \<^verbatim>\<open>spawn\<close>
  returns a child object and \<open>start\<close> returns an identifier; the failure arrives as
  the \<^verbatim>\<open>error\<close> event of that object, and \<open>handleError\<close> cleans up and calls
  \<open>start\<close> again, which resets the counter: after \<open>n\<close> such events, for any
  \<open>n\<close>, the \<open>n\<close>-th restart has been made and the counter reads 0. When
  \<^verbatim>\<open>spawn\<close> throws instead, \<open>start\<close> returns no identifier, but a child owned
  before the call stays owned, so the session is not idle; and after a switch whose
  \<^verbatim>\<open>spawn\<close> throws, the exit event of the child the switch killed starts a child
  again.
\<close>

theorem spawn_failure_restarts:
  "fst (start (envNoExec t) (Some ''srt://host:9000'') init) = Some (toString t) \<and>
   nextPid (run (Start (Some ''srt://host:9000'') (envNoExec t) # errorLoop n) init) = n + 1 \<and>
   ffmpeg (run (Start (Some ''srt://host:9000'') (envNoExec t) # errorLoop n) init) = Some n \<and>
   live (run (Start (Some ''srt://host:9000'') (envNoExec t) # errorLoop n) init) = [] \<and>
   restartAttempts (run (Start (Some ''srt://host:9000'') (envNoExec t) # errorLoop n) init) = 0 \<and>
   fst (start (envThrow 2000) (Some ''srt://host:9001'')
         (snd (start (envOk 1000) (Some ''srt://host:9000'') init))) = None \<and>
   \<not> idle (snd (start (envThrow 2000) (Some ''srt://host:9001'')
         (snd (start (envOk 1000) (Some ''srt://host:9000'') init)))) \<and>
   live (run [Start (Some ''srt://host:9000'') (envOk 1000),
              Switch (Some ''srt://host:9001'') (envThrow 2000),
              KillExit 0 (envOk 3000)] init) = [1]"
proof -
  have a: "fst (start (envNoExec t) (Some ''srt://host:9000'') init) = Some (toString t)"
    by (simp add: start_fst init_def envNoExec_def)
  have b: "fst (start (envThrow 2000) (Some ''srt://host:9001'')
         (snd (start (envOk 1000) (Some ''srt://host:9000'') init))) = None \<and>
   \<not> idle (snd (start (envThrow 2000) (Some ''srt://host:9001'')
         (snd (start (envOk 1000) (Some ''srt://host:9000'') init))))"
    by (simp add: start_def spawn_def init_def envOk_def envThrow_def idle_def)
  have c: "live (run [Start (Some ''srt://host:9000'') (envOk 1000),
              Switch (Some ''srt://host:9001'') (envThrow 2000),
              KillExit 0 (envOk 3000)] init) = [1]"
    by (simp add: run_def init_def start_def spawn_def switchStream_def kill_def onExit_def
        maxRestartAttempts_def envOk_def envThrow_def)
  from a b c show ?thesis unfolding error_state by (simp add: init_def)
qed

section \<open>The write queue\<close>

subsection \<open>Frames that are turned away\<close>

lemma step_before_start:
  "\<not> explicitStart ev \<Longrightarrow>
   ffmpeg w = None \<and> nextPid w = 0 \<and> live w = [] \<and> killed w = [] \<Longrightarrow>
   ffmpeg (step ev w) = None \<and> nextPid (step ev w) = 0 \<and> live (step ev w) = [] \<and>
   killed (step ev w) = []"
  by (cases ev)
     (simp_all add: stop_def cleanupStream_def processChunk_def stdinWritable_def
        processQueue_def drainLoop_def writeDone_def Let_def split: list.splits)

lemma run_before_start:
  "list_all (\<lambda>ev. \<not> explicitStart ev) evs \<Longrightarrow>
   ffmpeg w = None \<and> nextPid w = 0 \<and> live w = [] \<and> killed w = [] \<Longrightarrow>
   ffmpeg (run evs w) = None"
proof (induction evs arbitrary: w)
  case Nil
  then show ?case by (simp add: run_Nil)
next
  case (Cons ev evs)
  from Cons.prems have "\<not> explicitStart ev" by simp
  from step_before_start [OF this Cons.prems(2)] Cons.prems(1) show ?case
    by (simp add: run_Cons Cons.IH)
qed

text \<open>
  The guard of \<open>processChunk\<close>: a frame is turned away, with the state as it was,
  whenever the input of the child is not writable or the processor is shutting down;
  so it is in every state reached without a start or switch frame, and in the state
  \<open>stop\<close> returns.
\<close>

lemma processChunk_guard:
  "(\<not> stdinWritable w \<or> isShuttingDown w \<longrightarrow> processChunk c w = (False, w)) \<and>
   (list_all (\<lambda>ev. \<not> explicitStart ev) evs \<longrightarrow>
      processChunk c (run evs init) = (False, run evs init)) \<and>
   processChunk c (stop w) = (False, stop w)"
proof -
  have "ffmpeg (run evs init) = None" if "list_all (\<lambda>ev. \<not> explicitStart ev) evs"
    using that by (rule run_before_start) (simp add: init_def)
  then show ?thesis
    by (auto simp add: processChunk_def stdinWritable_def stop_fields)
qed

text \<open>
  C9 (the code departs from it). After \<open>stop\<close>, the exit event of the child that
  \<open>stop\<close> killed makes the exit listener start a child again; a frame that arrives
  then is accepted and queued, although no start or switch has been issued since the
  stop and no destination is set.
\<close>

theorem chunk_accepted_after_stop:
  "processChunk [1, 2] (run [Start (Some ''srt://host:9000'') (envOk 1000), Stop,
                             KillExit 0 (envOk 2000)] init) =
     (True, (run [Start (Some ''srt://host:9000'') (envOk 1000), Stop,
                  KillExit 0 (envOk 2000)] init)\<lparr>writeQueue := [[1, 2]], scheduled := 1\<rparr>) \<and>
   currentDestination (run [Start (Some ''srt://host:9000'') (envOk 1000), Stop,
                            KillExit 0 (envOk 2000)] init) = None"
  by (simp add: run_def init_def start_def spawn_def envOk_def stop_def cleanupStream_def
      kill_def onExit_def maxRestartAttempts_def processChunk_def stdinWritable_def)

text \<open>
  C9 at that run, read off the result: the frame is accepted, and it is in the queue
  afterwards.
\<close>

theorem chunk_accepted_after_stop_witness:
  "fst (processChunk [1, 2] (run [Start (Some ''srt://host:9000'') (envOk 1000), Stop,
                                  KillExit 0 (envOk 2000)] init)) \<and>
   writeQueue (snd (processChunk [1, 2] (run [Start (Some ''srt://host:9000'') (envOk 1000),
                                  Stop, KillExit 0 (envOk 2000)] init))) = [[1, 2]]"
  using chunk_accepted_after_stop by simp

subsection \<open>A write that fails\<close>



subsection \<open>Chunks reach the child in order\<close>

lemma drain_step:
  assumes "drainEvent ev" "ffmpeg w = Some p" "p \<in> set (writable w)" "\<not> isShuttingDown w"
  shows "ffmpeg (step ev w) = Some p \<and> writable (step ev w) = writable w \<and>
         stdinLog (step ev w) @ map (Pair p) (writeQueue (step ev w)) =
           stdinLog w @ map (Pair p) (writeQueue w @ chunkOf ev)"
  using assms
  by (cases ev)
     (auto simp: processChunk_def stdinWritable_def processQueue_def drainLoop_def
        writeDone_def Let_def split: list.splits)

lemma drain_run:
  "list_all drainEvent evs \<Longrightarrow> ffmpeg w = Some p \<Longrightarrow> p \<in> set (writable w) \<Longrightarrow>
   consistent w \<Longrightarrow>
   ffmpeg (run evs w) = Some p \<and> writable (run evs w) = writable w \<and>
   consistent (run evs w) \<and>
   stdinLog (run evs w) @ map (Pair p) (writeQueue (run evs w)) =
     stdinLog w @ map (Pair p) (writeQueue w @ chunksOf evs)"
proof (induction evs arbitrary: w)
  case Nil
  then show ?case by (simp add: run_Nil chunksOf_def)
next
  case (Cons ev evs)
  from Cons.prems have ev: "drainEvent ev" and evs: "list_all drainEvent evs" by simp_all
  from Cons.prems have sd: "\<not> isShuttingDown w" by (simp add: consistent_def)
  note s = drain_step [OF ev Cons.prems(2,3) sd]
  from s have a: "ffmpeg (step ev w) = Some p" and b: "p \<in> set (writable (step ev w))"
    using Cons.prems(3) by simp_all
  have c: "consistent (step ev w)" using Cons.prems(4) by (rule consistent_step)
  from Cons.IH [OF evs a b c] s show ?case
    by (simp add: run_Cons chunksOf_def)
qed

text \<open>
  A callback takes one from \<open>scheduled\<close>, a settled write takes one from the work
  that is left (suspended loops plus queued chunks).
\<close>

lemma RunDrain_step:
  "0 < scheduled w \<Longrightarrow>
   scheduled (step RunDrain w) = scheduled w - 1 \<and>
   length (waiting (step RunDrain w)) + length (writeQueue (step RunDrain w)) \<le>
     length (waiting w) + length (writeQueue w)"
  by (auto simp: processQueue_def drainLoop_def Let_def split: list.splits option.splits)

lemma drainLoop_measure:
  "scheduled (drainLoop w) = scheduled w \<and>
   length (waiting (drainLoop w)) + length (writeQueue (drainLoop w)) \<le>
     length (waiting w) + length (writeQueue w)"
  by (auto simp: drainLoop_def Let_def split: list.splits option.splits)

lemma WriteDone_step:
  "q \<in> set (waiting w) \<Longrightarrow>
   scheduled (step (WriteDone q True) w) = scheduled w \<and>
   length (waiting (step (WriteDone q True) w)) +
     length (writeQueue (step (WriteDone q True) w)) <
     length (waiting w) + length (writeQueue w)"
proof -
  assume mem: "q \<in> set (waiting w)"
  let ?w1 = "w\<lparr>waiting := remove1 q (waiting w)\<rparr>"
  from mem have "0 < length (waiting w)" by (cases "waiting w") simp_all
  with mem have l: "length (waiting ?w1) + length (writeQueue ?w1) <
      length (waiting w) + length (writeQueue w)"
    by (simp add: length_remove1)
  from mem have "step (WriteDone q True) w = drainLoop ?w1"
    by (simp add: writeDone_def)
  with drainLoop_measure [of ?w1] l show ?thesis by simp
qed

lemma run_RunDrains:
  "scheduled w = k \<Longrightarrow>
   scheduled (run (replicate k RunDrain) w) = 0 \<and>
   length (waiting (run (replicate k RunDrain) w)) +
     length (writeQueue (run (replicate k RunDrain) w))
     \<le> length (waiting w) + length (writeQueue w)"
proof (induction k arbitrary: w)
  case 0
  then show ?case by (simp add: run_Nil)
next
  case (Suc k)
  then have pos: "0 < scheduled w" by simp
  from RunDrain_step [OF pos] Suc.prems have "scheduled (step RunDrain w) = k" by simp
  from Suc.IH [OF this] RunDrain_step [OF pos] show ?case
    by (simp add: run_Cons)
qed

lemma run_settleWrites:
  "consistent w \<Longrightarrow> scheduled w = 0 \<Longrightarrow>
   length (waiting w) + length (writeQueue w) \<le> n \<Longrightarrow>
   writeQueue (run (settleWrites n w) w) = [] \<and> waiting (run (settleWrites n w) w) = []"
proof (induction n arbitrary: w)
  case 0
  then show ?case by (simp add: run_Nil)
next
  case (Suc n)
  show ?case
  proof (cases "waiting w")
    case Nil
    with Suc.prems have "writeQueue w = []" by (auto simp: consistent_def)
    with Nil show ?thesis by (simp add: run_Nil)
  next
    case (Cons q qs)
    then have mem: "q \<in> set (waiting w)" by simp
    note s = WriteDone_step [OF mem]
    have "consistent (step (WriteDone q True) w)" using Suc.prems(1) by (rule consistent_step)
    moreover from s Suc.prems have "scheduled (step (WriteDone q True) w) = 0" by simp
    moreover from s Suc.prems
    have "length (waiting (step (WriteDone q True) w)) +
          length (writeQueue (step (WriteDone q True) w)) \<le> n"
      by simp
    ultimately
    have "writeQueue (run (settleWrites n (step (WriteDone q True) w))
            (step (WriteDone q True) w)) = [] \<and>
          waiting (run (settleWrites n (step (WriteDone q True) w))
            (step (WriteDone q True) w)) = []"
      by (rule Suc.IH)
    with Cons show ?thesis by (simp add: run_Cons del: step.simps)
  qed
qed

lemma drainEvent_settleWrites: "list_all drainEvent (settleWrites n w)"
proof (induction n arbitrary: w)
  case 0
  show ?case by simp
next
  case (Suc n)
  show ?case
  proof (cases "waiting w")
    case Nil
    then show ?thesis by simp
  next
    case (Cons q qs)
    with Suc.IH [of "step (WriteDone q True) w"] show ?thesis
      by (simp del: step.simps)
  qed
qed

lemma chunkOf_settleWrites: "concat (map chunkOf (settleWrites n w)) = []"
proof (induction n arbitrary: w)
  case 0
  show ?case by simp
next
  case (Suc n)
  show ?case
  proof (cases "waiting w")
    case Nil
    then show ?thesis by simp
  next
    case (Cons q qs)
    with Suc.IH [of "step (WriteDone q True) w"] show ?thesis
      by (simp del: step.simps)
  qed
qed

lemma drainEvent_RunDrains: "list_all drainEvent (replicate k RunDrain)"
  by (induction k) simp_all

lemma drainEvent_settle: "list_all drainEvent (settle w)"
  by (simp add: settle_def Let_def drainEvent_settleWrites drainEvent_RunDrains)

lemma chunksOf_settle: "chunksOf (settle w) = []"
  by (simp add: settle_def chunksOf_def Let_def chunkOf_settleWrites)

lemma settle_quiet:
  assumes "consistent w"
  shows "writeQueue (run (settle w) w) = [] \<and> waiting (run (settle w) w) = []"
proof -
  let ?w1 = "run (replicate (scheduled w) RunDrain) w"
  have a: "scheduled ?w1 = 0" using run_RunDrains [of w "scheduled w"] by simp
  have c: "consistent ?w1" using assms by (rule consistent_run)
  from run_settleWrites [OF c a order_refl] show ?thesis
    by (simp add: settle_def run_append Let_def)
qed

text \<open>
  C7. Let \<open>w0\<close> be any reachable state in which child \<open>p\<close> is owned and its input is
  writable, and let only binary frames, drain callbacks and writes that settle with
  \<^verbatim>\<open>true\<close> follow (a write under backpressure settles with \<^verbatim>\<open>true\<close> once the
  \<^verbatim>\<open>drain\<close> signal or the write callback arrives; until then its loop is suspended).
  Then at every moment the chunks handed to child \<open>p\<close> since \<open>w0\<close>, followed by the
  chunks still queued, are exactly the chunks queued at \<open>w0\<close> followed by the chunks
  of the frames, in the order of arrival: none is lost, repeated or out of place.
  Once the callbacks and writes still owed have happened, the queue is empty and all
  of them have been handed to child \<open>p\<close>.
\<close>

theorem drain_in_order:
  assumes "w0 = run pre init" and "wN = run evs w0" and "wF = run (settle wN) wN"
    and "ffmpeg w0 = Some p" and "p \<in> set (writable w0)" and "list_all drainEvent evs"
  shows "stdinLog wN @ map (Pair p) (writeQueue wN) =
           stdinLog w0 @ map (Pair p) (writeQueue w0 @ chunksOf evs) \<and>
         stdinLog wF = stdinLog w0 @ map (Pair p) (writeQueue w0 @ chunksOf evs) \<and>
         writeQueue wF = [] \<and> waiting wF = []"
proof -
  have c0: "consistent w0" unfolding assms(1) by (rule consistent_reachable)
  from drain_run [OF assms(6,4,5) c0]
  have fN: "ffmpeg wN = Some p" and wrN: "p \<in> set (writable wN)" and cN: "consistent wN"
    and n: "stdinLog wN @ map (Pair p) (writeQueue wN) =
            stdinLog w0 @ map (Pair p) (writeQueue w0 @ chunksOf evs)"
    using assms(5) by (simp_all add: assms(2))
  from drain_run [OF drainEvent_settle [of wN] fN wrN cN]
  have f: "stdinLog wF @ map (Pair p) (writeQueue wF) =
           stdinLog wN @ map (Pair p) (writeQueue wN)"
    by (simp add: assms(3) chunksOf_settle)
  from settle_quiet [OF cN] have q: "writeQueue wF = []" "waiting wF = []"
    by (simp_all add: assms(3))
  from f q n show ?thesis by simp
qed

text \<open>
  C7 at a concrete run: after a start, three frames arrive while the drain of the
  first two is under way; two chunks have been written and one is queued, and after
  the events still owed all three have been written, in order.
\<close>

theorem drain_in_order_witness:
  "ffmpeg (run [Start (Some ''srt://host:9000'') (envOk 1000)] init) = Some 0 \<and>
   0 \<in> set (writable (run [Start (Some ''srt://host:9000'') (envOk 1000)] init)) \<and>
   list_all drainEvent [Chunk [1], Chunk [2], RunDrain, Chunk [3], WriteDone 0 True] \<and>
   stdinLog (run [Chunk [1], Chunk [2], RunDrain, Chunk [3], WriteDone 0 True]
      (run [Start (Some ''srt://host:9000'') (envOk 1000)] init)) = [(0, [1]), (0, [2])] \<and>
   writeQueue (run [Chunk [1], Chunk [2], RunDrain, Chunk [3], WriteDone 0 True]
      (run [Start (Some ''srt://host:9000'') (envOk 1000)] init)) = [[3]] \<and>
   stdinLog (run (settle (run [Chunk [1], Chunk [2], RunDrain, Chunk [3], WriteDone 0 True]
                (run [Start (Some ''srt://host:9000'') (envOk 1000)] init)))
      (run [Chunk [1], Chunk [2], RunDrain, Chunk [3], WriteDone 0 True]
        (run [Start (Some ''srt://host:9000'') (envOk 1000)] init)))
     = [(0, [1]), (0, [2]), (0, [3])]"
proof -
  have a: "ffmpeg (run [Start (Some ''srt://host:9000'') (envOk 1000)] init) = Some 0"
    and b: "0 \<in> set (writable (run [Start (Some ''srt://host:9000'') (envOk 1000)] init))"
    by (simp_all add: run_def init_def start_def spawn_def envOk_def)
  have c: "list_all drainEvent [Chunk [1], Chunk [2], RunDrain, Chunk [3], WriteDone 0 True]"
    by simp
  have d: "stdinLog (run [Chunk [1], Chunk [2], RunDrain, Chunk [3], WriteDone 0 True]
      (run [Start (Some ''srt://host:9000'') (envOk 1000)] init)) = [(0, [1]), (0, [2])]"
    and e: "writeQueue (run [Chunk [1], Chunk [2], RunDrain, Chunk [3], WriteDone 0 True]
      (run [Start (Some ''srt://host:9000'') (envOk 1000)] init)) = [[3]]"
    by (simp_all add: run_def init_def start_def spawn_def envOk_def processChunk_def
        stdinWritable_def processQueue_def drainLoop_def writeDone_def)
  from drain_in_order [OF refl refl refl a b c] a b c d e show ?thesis
    by (simp add: chunksOf_def run_def init_def start_def spawn_def envOk_def)
qed

end
